theory Spec2Isabelle
  imports Complex_Main "HOL-Library.AList" "HOL-Library.Sublist"
begin

section \<open>Pseudo-random keys\<close>

text \<open>
  The benchmark script \<^verbatim>\<open>examples/benchmark-device.py\<close> derives all of its randomness
  from one root key, \<^verbatim>\<open>random.key(202403241634)\<close>, by repeated calls of
  \<^verbatim>\<open>random.split\<close>.  A key is modelled by its derivation: the root key of a seed, or the
  \<open>i\<close>-th child of the split of a key into \<open>num\<close> children.  Two keys are equal exactly
  when they were derived in the same way, which is what "the same split" means in the
  program; the bits JAX computes for a key are a function of this derivation.
\<close>

datatype key = Key int | Child key nat nat

text \<open>\<^verbatim>\<open>random.key(seed)\<close> and \<^verbatim>\<open>random.split(key, num)\<close>.\<close>

definition jax_random_key :: "int \<Rightarrow> key" where
  "jax_random_key seed = Key seed"

definition jax_random_split :: "key \<Rightarrow> nat \<Rightarrow> key list" where
  "jax_random_split k num = map (Child k num) [0..<num]"

text \<open>The depth of a key in the derivation tree: the number of splits above it.\<close>

fun depth :: "key \<Rightarrow> nat" where
  "depth (Key _) = 0"
| "depth (Child k _ _) = Suc (depth k)"

section \<open>Exceptions\<close>

text \<open>
  The exceptions of the script: Python's own (\<^verbatim>\<open>NameError\<close> for a deleted or unbound
  global, \<^verbatim>\<open>KeyError\<close> for a missing dictionary key, \<^verbatim>\<open>AttributeError\<close> for an unset
  attribute), the array library's errors for an axis that does not exist and for
  operands whose shapes differ, and \<open>Raised\<close> for any exception raised inside an
  external library call (out of memory, an unavailable device, ...).
\<close>

datatype exn =
    NameError string
  | KeyError string
  | AttributeError string
  | AxisError
  | ShapeError
  | Raised string

section \<open>Arrays and the data generating process\<close>

text \<open>
  An array is its shape and its elements in row-major order.  Elements are real
  numbers: the rounding of floating-point arithmetic is not modelled.
\<close>

record ndarray =
  shape :: "nat list"
  elems :: "real list"

text \<open>
  The samplers of \<^verbatim>\<open>jax.random\<close> are external: the elements they draw for a key, a
  shape and (for the uniform sampler) the bounds are parameters of the model.
\<close>

record sampler =
  uniform_elems :: "key \<Rightarrow> nat list \<Rightarrow> real \<Rightarrow> real \<Rightarrow> real list"
  normal_elems :: "key \<Rightarrow> nat list \<Rightarrow> real list"

text \<open>
  What the library promises of its samplers: as many elements as the shape asks for,
  and uniform draws inside the requested bounds (when the bounds are in order).
\<close>

definition sampler_contract :: "sampler \<Rightarrow> bool" where
  "sampler_contract lib \<longleftrightarrow>
     (\<forall>k sh lo hi. length (uniform_elems lib k sh lo hi) = prod_list sh) \<and>
     (\<forall>k sh lo hi x. lo \<le> hi \<longrightarrow> x \<in> set (uniform_elems lib k sh lo hi) \<longrightarrow> lo \<le> x \<and> x \<le> hi) \<and>
     (\<forall>k sh. length (normal_elems lib k sh) = prod_list sh)"

text \<open>\<^verbatim>\<open>random.uniform(key, shape, float, minval, maxval)\<close> and
  \<^verbatim>\<open>random.normal(key, shape)\<close>.\<close>

definition jax_random_uniform :: "sampler \<Rightarrow> key \<Rightarrow> nat list \<Rightarrow> real \<Rightarrow> real \<Rightarrow> ndarray" where
  "jax_random_uniform lib k sh lo hi = \<lparr>shape = sh, elems = uniform_elems lib k sh lo hi\<rparr>"

definition jax_random_normal :: "sampler \<Rightarrow> key \<Rightarrow> nat list \<Rightarrow> ndarray" where
  "jax_random_normal lib k sh = \<lparr>shape = sh, elems = normal_elems lib k sh\<rparr>"

text \<open>The element-wise operations the script uses: a scalar times an array, the
  cosine, and the sum of two arrays.  The script only ever adds arrays of equal shapes;
  for operands of different shapes (which JAX would broadcast or reject) the model
  stops with \<open>ShapeError\<close>.\<close>

definition scalar_mul :: "real \<Rightarrow> ndarray \<Rightarrow> ndarray" where
  "scalar_mul c a = a\<lparr>elems := map (\<lambda>x. c * x) (elems a)\<rparr>"

definition jnp_cos :: "ndarray \<Rightarrow> ndarray" where
  "jnp_cos a = a\<lparr>elems := map cos (elems a)\<rparr>"

definition jnp_add :: "ndarray \<Rightarrow> ndarray \<Rightarrow> exn + ndarray" where
  "jnp_add a b =
     (if shape a = shape b
      then Inr \<lparr>shape = shape a, elems = map (\<lambda>(x, y). x + y) (zip (elems a) (elems b))\<rparr>
      else Inl ShapeError)"

text \<open>\<^verbatim>\<open>jnp.sum(a, axis=0)\<close>: the leading axis is summed away; an array without axes
  has no axis 0.\<close>

definition jnp_sum_axis0 :: "ndarray \<Rightarrow> exn + ndarray" where
  "jnp_sum_axis0 a =
     (case shape a of
        [] \<Rightarrow> Inl AxisError
      | d # rest \<Rightarrow>
          Inr \<lparr>shape = rest,
               elems = map (\<lambda>j. sum_list (map (\<lambda>i. elems a ! (i * prod_list rest + j)) [0..<d]))
                         [0..<prod_list rest]\<rparr>)"

text \<open>The conditional mean \<^verbatim>\<open>f\<close> (lines 46-48), the covariates \<^verbatim>\<open>gen_X\<close> (lines 49-50)
  and the response \<^verbatim>\<open>gen_y\<close> (lines 51-52).  \<open>sigma\<close> is the module constant the
  script sets to 0.1.\<close>

definition f :: "ndarray \<Rightarrow> exn + ndarray" where
  "f x = (let T = 2 in jnp_sum_axis0 (jnp_cos (scalar_mul (2 * pi / T) x)))"

definition gen_X :: "sampler \<Rightarrow> key \<Rightarrow> nat \<Rightarrow> nat \<Rightarrow> ndarray" where
  "gen_X lib k p n = jax_random_uniform lib k [p, n] (- 2) 2"

definition gen_y :: "sampler \<Rightarrow> real \<Rightarrow> key \<Rightarrow> ndarray \<Rightarrow> exn + ndarray" where
  "gen_y lib sigma k X =
     (case f X of
        Inl e \<Rightarrow> Inl e
      | Inr m \<Rightarrow> jnp_add m (scalar_mul sigma (jax_random_normal lib k (tl (shape X)))))"

text \<open>The response as the sweep computes it, in line 72:
  \<^verbatim>\<open>y = f(X) + sigma * random.normal(subkey2, (n,))\<close>.\<close>

definition sweep_y :: "sampler \<Rightarrow> real \<Rightarrow> key \<Rightarrow> ndarray \<Rightarrow> nat \<Rightarrow> exn + ndarray" where
  "sweep_y lib sigma subkey2 X n =
     (case f X of
        Inl e \<Rightarrow> Inl e
      | Inr m \<Rightarrow> jnp_add m (scalar_mul sigma (jax_random_normal lib subkey2 [n])))"

section \<open>The benchmark's configuration, state and environment\<close>

text \<open>
  The module constants of lines 17-55.  The script sets \<open>ntree = 200\<close>,
  \<open>mcmc_iterations = 1\<close>, \<open>nchains = 8\<close>, \<open>p = 10\<close>, \<open>sigma = 0.1\<close>, the seed
  \<open>202403241634\<close> and the nineteen sizes of \<open>nvec\<close> from 100 to 100 000 000.
\<close>

record config =
  ntree :: nat
  mcmc_iterations :: nat
  nchains :: nat
  nvec :: "nat list"
  p :: nat
  sigma :: real
  seed :: int

definition script_config :: config where
  "script_config =
     \<lparr>ntree = 200, mcmc_iterations = 1, nchains = 8,
      nvec = [100, 200, 500, 1000, 2000, 5000, 10000, 20000, 50000, 100000, 200000,
              500000, 1000000, 2000000, 5000000, 10000000, 20000000, 50000000, 100000000],
      p = 10, sigma = 1 / 10, seed = 202403241634\<rparr>"

text \<open>The dictionary \<^verbatim>\<open>devices\<close> (lines 12-15) maps a label to a device handle; as a
  Python dictionary it is iterated in insertion order.  A handle
  \<^verbatim>\<open>jax.devices(platform)[i]\<close> is the platform's name and the index.\<close>

type_synonym label = string

datatype device = Device string nat

definition script_devices :: "(label \<times> device) list" where
  "script_devices = [(''cpu'', Device ''cpu'' 0)]"

text \<open>The sampler state is opaque to the script: the value
  \<^verbatim>\<open>bartz.BART.gbart(X, y, ntree=ntree, nskip=0, ndpost=0, seed=0)._mcmc_state\<close> built from
  a dataset, or the copy of a state that \<^verbatim>\<open>jax.device_put\<close> placed on a device.\<close>

datatype mcmc_state =
    Mcmc_state ndarray ndarray nat
  | On_device device mcmc_state

text \<open>The calls into the external libraries, in the order the script makes them:
  the splits and draws of \<^verbatim>\<open>jax.random\<close> with the key they consume, the state builder
  with its dataset, the transfer to a device, and the call of the compiled task.\<close>

datatype call =
    Split key nat
  | Uniform key "nat list"
  | Normal key "nat list"
  | Gbart ndarray ndarray nat
  | Device_put device mcmc_state
  | Task device mcmc_state "key list"

text \<open>
  The script's global variables, and the part of the world it observes:
  \<^item> \<open>key\<close>, the sweep key of line 55; \<open>state\<close>, the global \<^verbatim>\<open>state\<close>, \<open>None\<close> while the
    name is unbound (before line 75, after \<^verbatim>\<open>del state\<close>); \<open>times_dict\<close>, the results
    table \<^verbatim>\<open>times\<close>, a dictionary in insertion order;
  \<^item> \<open>clock\<close>, what \<^verbatim>\<open>time.perf_counter()\<close> reads, in ticks; \<open>pending\<close>, the ticks of work
    that was dispatched to the device and has not run yet (JAX dispatches
    asynchronously: a call returns before its result is computed);
  \<^item> \<open>calls\<close>, the library calls made so far.
\<close>

record globals =
  key :: key
  state :: "mcmc_state option"
  times_dict :: "(label \<times> int list) list"
  clock :: int
  pending :: nat
  calls :: "call list"

text \<open>
  What the script does not decide: at which calls a library raises, how long the
  compiled task runs for a size on a device, and what the clock reads at the start.
\<close>

datatype site = At_gbart | At_device_put | At_compile | At_task

record env =
  raises :: "site \<Rightarrow> nat \<Rightarrow> label \<Rightarrow> exn option"
  task_cost :: "nat \<Rightarrow> label \<Rightarrow> nat"
  clock0 :: int

definition init_globals :: "config \<Rightarrow> env \<Rightarrow> globals" where
  "init_globals cfg ev =
     \<lparr>key = jax_random_key (seed cfg), state = None, times_dict = [],
      clock = clock0 ev, pending = 0, calls = []\<rparr>"

section \<open>The timer\<close>

text \<open>\<^verbatim>\<open>time.perf_counter()\<close> reads the clock.\<close>

definition perf_counter :: "globals \<Rightarrow> int" where
  "perf_counter s = clock s"

text \<open>The class \<^verbatim>\<open>Timer\<close> (lines 57-62).  An attribute is \<open>None\<close> until it is assigned.
  \<^verbatim>\<open>__exit__\<close> ignores its arguments and returns \<^verbatim>\<open>None\<close>, which the
  \<^verbatim>\<open>with\<close> statement reads as "do not suppress the exception": the flag \<open>False\<close>.\<close>

record Timer =
  start :: "int option"
  time :: "int option"

definition Timer_new :: Timer where
  "Timer_new = \<lparr>start = None, time = None\<rparr>"

definition Timer_enter :: "Timer \<Rightarrow> globals \<Rightarrow> Timer" where
  "Timer_enter self s = self\<lparr>start := Some (perf_counter s)\<rparr>"

definition Timer_exit :: "Timer \<Rightarrow> globals \<Rightarrow> exn + (Timer \<times> bool)" where
  "Timer_exit self s =
     (case start self of
        None \<Rightarrow> Inl (AttributeError ''start'')
      | Some t0 \<Rightarrow> Inr (self\<lparr>time := Some (perf_counter s - t0)\<rparr>, False))"

text \<open>\<^verbatim>\<open>with Timer() as timer: body\<close>.  Python calls \<^verbatim>\<open>__enter__\<close>, runs the body, and
  calls \<^verbatim>\<open>__exit__\<close> whether the body returned or raised; an exception of the body is
  raised again after \<^verbatim>\<open>__exit__\<close> unless \<^verbatim>\<open>__exit__\<close> returned a true value.\<close>

definition with_Timer ::
  "(globals \<Rightarrow> exn option \<times> globals) \<Rightarrow> globals \<Rightarrow> exn option \<times> Timer \<times> globals" where
  "with_Timer body s =
     (let timer = Timer_enter Timer_new s;
          (r, s') = body s
      in case Timer_exit timer s' of
           Inl e' \<Rightarrow> (Some e', timer, s')
         | Inr (timer', suppress) \<Rightarrow>
             (case r of
                None \<Rightarrow> (None, timer', s')
              | Some e \<Rightarrow> if suppress then (None, timer', s') else (Some e, timer', s')))"

section \<open>The sweep\<close>

text \<open>The call \<^verbatim>\<open>task(state, keys)\<close> of the compiled task dispatches the work and
  returns; \<^verbatim>\<open>jax.block_until_ready\<close> waits until the dispatched work is done.\<close>

definition task_call ::
  "env \<Rightarrow> nat \<Rightarrow> label \<Rightarrow> device \<Rightarrow> mcmc_state \<Rightarrow> key list \<Rightarrow> globals \<Rightarrow> exn option \<times> globals" where
  "task_call ev n l d st ks s =
     (case raises ev At_task n l of
        Some e \<Rightarrow> (Some e, s)
      | None \<Rightarrow>
          (None, s\<lparr>pending := pending s + task_cost ev n l,
                    calls := calls s @ [Task d st ks]\<rparr>))"

definition block_until_ready :: "globals \<Rightarrow> globals" where
  "block_until_ready s = s\<lparr>clock := clock s + int (pending s), pending := 0\<rparr>"

text \<open>The body of the timed block, line 97:
  \<^verbatim>\<open>jax.block_until_ready(task(state, keys))\<close>.\<close>

definition timed_body ::
  "env \<Rightarrow> nat \<Rightarrow> label \<Rightarrow> device \<Rightarrow> mcmc_state \<Rightarrow> key list \<Rightarrow> globals \<Rightarrow> exn option \<times> globals" where
  "timed_body ev n l d st ks s =
     (case task_call ev n l d st ks s of
        (Some e, s') \<Rightarrow> (Some e, s')
      | (None, s') \<Rightarrow> (None, block_until_ready s'))"

text \<open>\<^verbatim>\<open>times.setdefault(label, []).append(t)\<close>, line 100.\<close>

definition setdefault_append :: "(label \<times> int list) list \<Rightarrow> label \<Rightarrow> int \<Rightarrow> (label \<times> int list) list" where
  "setdefault_append d l t =
     (case map_of d l of
        None \<Rightarrow> d @ [(l, [t])]
      | Some ts \<Rightarrow> AList.update l (ts @ [t]) d)"

text \<open>
  One pass of the loop over the devices, lines 82-105, for the size \<open>n\<close> and the key
  \<^verbatim>\<open>subkey3\<close>: split the chain keys (line 85), read the global \<^verbatim>\<open>state\<close> and put it on
  the device, binding the name to the copy (line 86), compile (lines 89-93), time the
  task (lines 96-97), append the time (line 100), delete the name \<^verbatim>\<open>state\<close> (line 104).
\<close>

definition device_iter ::
  "env \<Rightarrow> config \<Rightarrow> nat \<Rightarrow> key \<Rightarrow> label \<times> device \<Rightarrow> globals \<Rightarrow> exn option \<times> globals" where
  "device_iter ev cfg n subkey3 ld s =
     (let l = fst ld; d = snd ld;
          ks = jax_random_split subkey3 (nchains cfg);
          s1 = s\<lparr>calls := calls s @ [Split subkey3 (nchains cfg)]\<rparr>
      in case state s1 of
           None \<Rightarrow> (Some (NameError ''state''), s1)
         | Some st \<Rightarrow>
             (case raises ev At_device_put n l of
                Some e \<Rightarrow> (Some e, s1)
              | None \<Rightarrow>
                  (let st' = On_device d st;
                       s2 = s1\<lparr>state := Some st', calls := calls s1 @ [Device_put d st]\<rparr>
                   in case raises ev At_compile n l of
                        Some e \<Rightarrow> (Some e, s2)
                      | None \<Rightarrow>
                          (case with_Timer (timed_body ev n l d st' ks) s2 of
                             (Some e, timer, s3) \<Rightarrow> (Some e, s3)
                           | (None, timer, s3) \<Rightarrow>
                               (case time timer of
                                  None \<Rightarrow> (Some (AttributeError ''time''), s3)
                                | Some t \<Rightarrow>
                                    (None, s3\<lparr>times_dict := setdefault_append (times_dict s3) l t,
                                               state := None\<rparr>))))))"

text \<open>The loop over the devices: an exception ends it.\<close>

fun for_devices ::
  "env \<Rightarrow> config \<Rightarrow> nat \<Rightarrow> key \<Rightarrow> (label \<times> device) list \<Rightarrow> globals \<Rightarrow> exn option \<times> globals" where
  "for_devices ev cfg n subkey3 [] s = (None, s)"
| "for_devices ev cfg n subkey3 (ld # lds) s =
     (case device_iter ev cfg n subkey3 ld s of
        (Some e, s') \<Rightarrow> (Some e, s')
      | (None, s') \<Rightarrow> for_devices ev cfg n subkey3 lds s')"

text \<open>
  One pass of the loop over the sizes, lines 65-107: split the sweep key in four
  (line 70), draw the covariates (line 71), compute the response (line 72: \<^verbatim>\<open>f(X)\<close>
  first, then the normal draw, then the sum), build the sampler state (line 75), and
  run the loop over the devices.  The split returns four keys, so the unpacking of
  line 70 cannot fail.  \<^verbatim>\<open>X\<close> and \<^verbatim>\<open>y\<close> are deleted in line 78 and are local here.
  The progress lines the script prints are left out.
\<close>

definition size_iter ::
  "sampler \<Rightarrow> env \<Rightarrow> config \<Rightarrow> (label \<times> device) list \<Rightarrow> nat \<Rightarrow> globals \<Rightarrow> exn option \<times> globals" where
  "size_iter lib ev cfg devices n s =
     (let ks = jax_random_split (key s) 4;
          subkey1 = ks ! 1; subkey2 = ks ! 2; subkey3 = ks ! 3;
          s1 = s\<lparr>key := ks ! 0, calls := calls s @ [Split (key s) 4]\<rparr>;
          X = gen_X lib subkey1 (p cfg) n;
          s2 = s1\<lparr>calls := calls s1 @ [Uniform subkey1 [p cfg, n]]\<rparr>
      in case f X of
           Inl e \<Rightarrow> (Some e, s2)
         | Inr m \<Rightarrow>
             (let noise = jax_random_normal lib subkey2 [n];
                  s3 = s2\<lparr>calls := calls s2 @ [Normal subkey2 [n]]\<rparr>
              in case jnp_add m (scalar_mul (sigma cfg) noise) of
                   Inl e \<Rightarrow> (Some e, s3)
                 | Inr y \<Rightarrow>
                     (case raises ev At_gbart n [] of
                        Some e \<Rightarrow> (Some e, s3)
                      | None \<Rightarrow>
                          for_devices ev cfg n subkey3 devices
                            (s3\<lparr>state := Some (Mcmc_state X y (ntree cfg)),
                                calls := calls s3 @ [Gbart X y (ntree cfg)]\<rparr>))))"

text \<open>The loop over the sizes, and the whole sweep from the initial globals.\<close>

fun for_sizes ::
  "sampler \<Rightarrow> env \<Rightarrow> config \<Rightarrow> (label \<times> device) list \<Rightarrow> nat list \<Rightarrow> globals \<Rightarrow> exn option \<times> globals" where
  "for_sizes lib ev cfg devices [] s = (None, s)"
| "for_sizes lib ev cfg devices (n # ns) s =
     (case size_iter lib ev cfg devices n s of
        (Some e, s') \<Rightarrow> (Some e, s')
      | (None, s') \<Rightarrow> for_sizes lib ev cfg devices ns s')"

definition sweep :: "sampler \<Rightarrow> env \<Rightarrow> config \<Rightarrow> (label \<times> device) list \<Rightarrow> exn option \<times> globals" where
  "sweep lib ev cfg devices = for_sizes lib ev cfg devices (nvec cfg) (init_globals cfg ev)"

section \<open>Observations of a run\<close>

text \<open>The calls a successful pass of the device loop makes for the state \<open>st\<close> it finds bound
  (used to state what a run has called).\<close>

definition device_calls :: "config \<Rightarrow> key \<Rightarrow> mcmc_state \<Rightarrow> label \<times> device \<Rightarrow> call list" where
  "device_calls cfg k3 st ld =
     [Split k3 (nchains cfg), Device_put (snd ld) st,
      Task (snd ld) (On_device (snd ld) st) (jax_random_split k3 (nchains cfg))]"

text \<open>The calls of the device loop when no library call raises, for the state \<open>st\<close>
  bound at its start: nothing without a device; one pass for one device; with more
  devices the first pass, and the split of the second pass, which then finds the name
  \<^verbatim>\<open>state\<close> deleted.\<close>

fun devices_calls :: "config \<Rightarrow> key \<Rightarrow> mcmc_state \<Rightarrow> (label \<times> device) list \<Rightarrow> call list" where
  "devices_calls cfg k3 st [] = []"
| "devices_calls cfg k3 st [ld] = device_calls cfg k3 st ld"
| "devices_calls cfg k3 st (ld # _ # _) = device_calls cfg k3 st ld @ [Split k3 (nchains cfg)]"

text \<open>The calls of one pass of the loop over the sizes, from the sweep key \<open>k\<close>, when no
  library call raises; and those of the loop over the sizes.  A pass over two or more
  devices raises, which ends the loop.\<close>

definition size_calls :: "sampler \<Rightarrow> config \<Rightarrow> (label \<times> device) list \<Rightarrow> key \<Rightarrow> nat \<Rightarrow> call list" where
  "size_calls lib cfg devices k n =
     (let X = gen_X lib (Child k 4 1) (p cfg) n
      in [Split k 4, Uniform (Child k 4 1) [p cfg, n]] @
         (case sweep_y lib (sigma cfg) (Child k 4 2) X n of
            Inl e \<Rightarrow> []
          | Inr y \<Rightarrow>
              [Normal (Child k 4 2) [n], Gbart X y (ntree cfg)] @
              devices_calls cfg (Child k 4 3) (Mcmc_state X y (ntree cfg)) devices))"

fun sizes_calls :: "sampler \<Rightarrow> config \<Rightarrow> (label \<times> device) list \<Rightarrow> key \<Rightarrow> nat list \<Rightarrow> call list" where
  "sizes_calls lib cfg devices k [] = []"
| "sizes_calls lib cfg devices k (n # ns) =
     size_calls lib cfg devices k n @
     (if length devices \<le> 1 then sizes_calls lib cfg devices (Child k 4 0) ns else [])"

text \<open>The keys a run has consumed, in order: the key of every split and of every draw.\<close>

fun consumed :: "call \<Rightarrow> key list" where
  "consumed (Split k _) = [k]"
| "consumed (Uniform k _) = [k]"
| "consumed (Normal k _) = [k]"
| "consumed (Gbart _ _ _) = []"
| "consumed (Device_put _ _) = []"
| "consumed (Task _ _ _) = []"

definition consumed_keys :: "call list \<Rightarrow> key list" where
  "consumed_keys cs = concat (map consumed cs)"

text \<open>The normal draws a run has made (key and shape), and the datasets it has passed to
  the state builder.\<close>

fun normal_draw :: "call \<Rightarrow> (key \<times> nat list) list" where
  "normal_draw (Normal k sh) = [(k, sh)]"
| "normal_draw (Split _ _) = []"
| "normal_draw (Uniform _ _) = []"
| "normal_draw (Gbart _ _ _) = []"
| "normal_draw (Device_put _ _) = []"
| "normal_draw (Task _ _ _) = []"

definition normal_draws :: "call list \<Rightarrow> (key \<times> nat list) list" where
  "normal_draws cs = concat (map normal_draw cs)"

fun built_from :: "call \<Rightarrow> (ndarray \<times> ndarray) list" where
  "built_from (Gbart X y _) = [(X, y)]"
| "built_from (Split _ _) = []"
| "built_from (Uniform _ _) = []"
| "built_from (Normal _ _) = []"
| "built_from (Device_put _ _) = []"
| "built_from (Task _ _ _) = []"

definition gbart_datasets :: "call list \<Rightarrow> (ndarray \<times> ndarray) list" where
  "gbart_datasets cs = concat (map built_from cs)"

section \<open>The text box\<close>

text \<open>
  The values the keyword arguments of \<^verbatim>\<open>textbox\<close> take: strings, numbers, tuples and
  dictionaries.  A dictionary is the list of its items in insertion order; the keys of a
  Python dictionary are distinct.
\<close>

datatype pyval = Str string | Num real | Tup "pyval list" | Dict "(string \<times> pyval) list"

type_synonym pydict = "(string \<times> pyval) list"

text \<open>\<^verbatim>\<open>d.update(e)\<close>: the items of \<open>e\<close> are stored into \<open>d\<close> one after the other; a key
  that \<open>d\<close> has keeps its place, a new key goes to the end.\<close>

definition dict_update :: "pydict \<Rightarrow> pydict \<Rightarrow> pydict" where
  "dict_update d e = fold (\<lambda>(k, v). AList.update k v) e d"

text \<open>The table \<^verbatim>\<open>locparams\<close> (lines 133-144) and the defaults \<^verbatim>\<open>kwargs\<close> (lines 146-155).\<close>

definition locparams :: "(string \<times> pydict) list" where
  "locparams =
     (let M = 8 in
      [(''lower left'',    [(''xy'', Tup [Num 0, Num 0]), (''xytext'', Tup [Num M, Num M]),
                            (''va'', Str ''bottom''), (''ha'', Str ''left'')]),
       (''lower center'',  [(''xy'', Tup [Num (1 / 2), Num 0]), (''xytext'', Tup [Num 0, Num M]),
                            (''va'', Str ''bottom''), (''ha'', Str ''center'')]),
       (''lower right'',   [(''xy'', Tup [Num 1, Num 0]), (''xytext'', Tup [Num (- M), Num M]),
                            (''va'', Str ''bottom''), (''ha'', Str ''right'')]),
       (''center left'',   [(''xy'', Tup [Num 0, Num (1 / 2)]), (''xytext'', Tup [Num M, Num 0]),
                            (''va'', Str ''center''), (''ha'', Str ''left'')]),
       (''center center'', [(''xy'', Tup [Num (1 / 2), Num (1 / 2)]), (''xytext'', Tup [Num 0, Num 0]),
                            (''va'', Str ''center''), (''ha'', Str ''center'')]),
       (''center right'',  [(''xy'', Tup [Num 1, Num (1 / 2)]), (''xytext'', Tup [Num (- M), Num 0]),
                            (''va'', Str ''center''), (''ha'', Str ''right'')]),
       (''upper left'',    [(''xy'', Tup [Num 0, Num 1]), (''xytext'', Tup [Num M, Num (- M)]),
                            (''va'', Str ''top''), (''ha'', Str ''left'')]),
       (''upper center'',  [(''xy'', Tup [Num (1 / 2), Num 1]), (''xytext'', Tup [Num 0, Num (- M)]),
                            (''va'', Str ''top''), (''ha'', Str ''center'')]),
       (''upper right'',   [(''xy'', Tup [Num 1, Num 1]), (''xytext'', Tup [Num (- M), Num (- M)]),
                            (''va'', Str ''top''), (''ha'', Str ''right'')])])"

definition default_kwargs :: pydict where
  "default_kwargs =
     [(''xycoords'', Str ''axes fraction''),
      (''textcoords'', Str ''offset points''),
      (''bbox'', Dict [(''facecolor'', Str ''white''), (''alpha'', Num (3 / 4)),
                       (''edgecolor'', Str ''#ccc''), (''boxstyle'', Str ''round'')])]"

text \<open>
  The loop of lines 159-162 over the items of \<^verbatim>\<open>kw\<close> that are still to visit, with the
  dictionaries \<^verbatim>\<open>kwargs\<close> and \<^verbatim>\<open>newkw\<close>: when the value is a dictionary and
  \<^verbatim>\<open>kwargs\<close> holds a dictionary for the key, that dictionary is updated in place and the
  key is popped from \<^verbatim>\<open>newkw\<close> (\<^verbatim>\<open>pop\<close> raises \<^verbatim>\<open>KeyError\<close> for a key that is not
  there).
\<close>

fun merge_loop :: "pydict \<Rightarrow> pydict \<Rightarrow> pydict \<Rightarrow> exn + (pydict \<times> pydict)" where
  "merge_loop [] kwargs newkw = Inr (kwargs, newkw)"
| "merge_loop ((k, v) # items) kwargs newkw =
     (case v of
        Dict dv \<Rightarrow>
          (case map_of kwargs k of
             Some (Dict dd) \<Rightarrow>
               (case map_of newkw k of
                  None \<Rightarrow> Inl (KeyError k)
                | Some _ \<Rightarrow>
                    merge_loop items (AList.update k (Dict (dict_update dd dv)) kwargs)
                      (AList.delete k newkw))
           | _ \<Rightarrow> merge_loop items kwargs newkw)
      | _ \<Rightarrow> merge_loop items kwargs newkw)"

text \<open>
  \<^verbatim>\<open>textbox(ax, text, loc, **kw)\<close>, lines 109-165.  The function returns what
  \<^verbatim>\<open>ax.annotate(text, **kwargs)\<close> returns; the model returns the arguments of that call,
  the text and the keyword arguments.  \<^verbatim>\<open>locparams[loc]\<close> raises \<^verbatim>\<open>KeyError\<close> for a
  location that is not in the table.
\<close>

definition textbox :: "string \<Rightarrow> string \<Rightarrow> pydict \<Rightarrow> exn + (string \<times> pydict)" where
  "textbox txt loc kw =
     (case map_of locparams loc of
        None \<Rightarrow> Inl (KeyError loc)
      | Some lp \<Rightarrow>
          (case merge_loop kw (dict_update default_kwargs lp) kw of
             Inl e \<Rightarrow> Inl e
           | Inr (kwargs, newkw) \<Rightarrow> Inr (txt, dict_update kwargs newkw)))"

text \<open>What the merge gives for one key: the caller's value \<open>v\<close> against the default.\<close>

fun merged_entry :: "pyval \<Rightarrow> pyval option \<Rightarrow> pyval" where
  "merged_entry (Dict dv) (Some (Dict dd)) = Dict (dict_update dd dv)"
| "merged_entry v _ = v"

text \<open>The test of line 160, \<^verbatim>\<open>isinstance(v, dict) and isinstance(kwargs.get(k, None), dict)\<close>,
  for the caller's value \<open>v\<close> and what \<^verbatim>\<open>kwargs\<close> holds for the key.\<close>

fun both_dicts :: "pyval \<Rightarrow> pyval option \<Rightarrow> bool" where
  "both_dicts (Dict dv) (Some (Dict dd)) = True"
| "both_dicts _ _ = False"

section \<open>Inputs for evaluation\<close>

text \<open>An environment in which no library call raises and the task takes \<open>n\<close> ticks for
  the size \<open>n\<close>; a small configuration; the script's device and a second one.\<close>

definition quiet_env :: env where
  "quiet_env = \<lparr>raises = (\<lambda>_ _ _. None), task_cost = (\<lambda>n _. n), clock0 = 0\<rparr>"

definition small_config :: config where
  "small_config =
     \<lparr>ntree = 10, mcmc_iterations = 1, nchains = 2, nvec = [1, 2], p = 2,
      sigma = 1 / 10, seed = 202403241634\<rparr>"

definition two_devices :: "(label \<times> device) list" where
  "two_devices = [(''cpu'', Device ''cpu'' 0), (''gpu'', Device ''gpu'' 0)]"

text \<open>A sampler to evaluate the model on concrete inputs: every uniform draw is the
  lower bound, every normal draw is 0.\<close>

definition lower_sampler :: sampler where
  "lower_sampler =
     \<lparr>uniform_elems = (\<lambda>k sh lo hi. replicate (prod_list sh) lo),
      normal_elems = (\<lambda>k sh. replicate (prod_list sh) 0)\<rparr>"


text \<open>An environment in which the task raises at the size 2, and a sampler state to
  evaluate the timer alone.\<close>

definition failing_env :: env where
  "failing_env =
     \<lparr>raises = (\<lambda>site n _. if site = At_task \<and> n = 2 then Some (Raised ''out of memory'') else None),
      task_cost = (\<lambda>n _. n), clock0 = 0\<rparr>"

definition empty_state :: mcmc_state where
  "empty_state = Mcmc_state \<lparr>shape = [0], elems = []\<rparr> \<lparr>shape = [0], elems = []\<rparr> 10"

section \<open>Properties of the data generating process\<close>

lemma lower_sampler_contract: "sampler_contract lower_sampler"
  by (simp add: sampler_contract_def lower_sampler_def)

lemma shape_gen_X: "shape (gen_X lib k np n) = [np, n]"
  by (simp add: gen_X_def jax_random_uniform_def)

lemma length_gen_X: "sampler_contract lib \<Longrightarrow> length (elems (gen_X lib k np n)) = np * n"
  by (simp add: gen_X_def jax_random_uniform_def sampler_contract_def)

lemma range_gen_X:
  "sampler_contract lib \<Longrightarrow> x \<in> set (elems (gen_X lib k np n)) \<Longrightarrow> - 2 \<le> x \<and> x \<le> 2"
proof -
  assume c: "sampler_contract lib" and x: "x \<in> set (elems (gen_X lib k np n))"
  have "x \<in> set (uniform_elems lib k [np, n] (- 2) 2)"
    using x by (simp add: gen_X_def jax_random_uniform_def)
  moreover have "(- 2 :: real) \<le> 2" by simp
  ultimately show ?thesis
    using c unfolding sampler_contract_def by blast
qed

lemma row_major_index: "i < np \<Longrightarrow> j < n \<Longrightarrow> i * n + j < np * (n::nat)"
proof -
  assume a: "i < np" "j < n"
  have "i * n + j < i * n + n" using a by simp
  also have "\<dots> = Suc i * n" by simp
  also have "\<dots> \<le> np * n" using a by (intro mult_le_mono1) simp
  finally show ?thesis .
qed

text \<open>On a \<open>p\<close> by \<open>n\<close> matrix, \<open>f\<close> returns the vector of the \<open>n\<close> column sums of
  \<open>cos (2 \<pi> / T \<cdot> x)\<close> with \<open>T = 2\<close>.\<close>

lemma f_matrix:
  assumes "shape X = [np, n]" "length (elems X) = np * n"
  shows "\<exists>m. f X = Inr m \<and> shape m = [n] \<and> length (elems m) = n \<and>
     (\<forall>j<n. elems m ! j = (\<Sum>i<np. cos (2 * pi / 2 * elems X ! (i * n + j))))"
  using assms
  apply (simp add: f_def jnp_sum_axis0_def jnp_cos_def scalar_mul_def Let_def)
  apply (simp add: interv_sum_list_conv_sum_set_nat row_major_index atLeast0LessThan)
  done

text \<open>
  Claim C7.  For every key, every number of covariates \<open>p\<close> and every size \<open>n\<close> (so also
  for \<open>n = 1\<close> and for the largest size of the sweep), and for samplers that keep the
  library's contract: the covariates are the library's uniform draw for the shape
  \<open>(p, n)\<close> and the bounds \<open>-2\<close> and \<open>2\<close>, they have shape \<open>(p, n)\<close> and every entry lies in
  \<open>[-2, 2]\<close>; the response of the sweep has shape \<open>(n)\<close>, and its \<open>j\<close>-th entry is the sum
  over the \<open>p\<close> covariates of \<open>cos (2 \<pi> / T \<cdot> X\<^sub>i\<^sub>j)\<close> with \<open>T = 2\<close>, plus \<open>sigma\<close> times the
  \<open>j\<close>-th entry of the library's standard normal draw of shape \<open>(n)\<close>.  That the draws are
  uniformly and normally distributed is the library's part: the samplers are
  parameters here.
\<close>

theorem dataset_shape_and_response:
  assumes "sampler_contract lib"
  shows "gen_X lib k1 np n = jax_random_uniform lib k1 [np, n] (- 2) 2 \<and>
         shape (gen_X lib k1 np n) = [np, n] \<and>
         (\<forall>x \<in> set (elems (gen_X lib k1 np n)). - 2 \<le> x \<and> x \<le> 2) \<and>
         (\<exists>y. sweep_y lib sg k2 (gen_X lib k1 np n) n = Inr y \<and>
              shape y = [n] \<and> length (elems y) = n \<and>
              (\<forall>j<n. elems y ! j =
                 (\<Sum>i<np. cos (2 * pi / 2 * elems (gen_X lib k1 np n) ! (i * n + j)))
                 + sg * elems (jax_random_normal lib k2 [n]) ! j))"
proof -
  let ?X = "gen_X lib k1 np n"
  have len: "length (normal_elems lib k2 [n]) = n"
    using assms by (simp add: sampler_contract_def)
  obtain m where m: "f ?X = Inr m" "shape m = [n]" "length (elems m) = n"
    "\<forall>j<n. elems m ! j = (\<Sum>i<np. cos (2 * pi / 2 * elems ?X ! (i * n + j)))"
    using f_matrix [OF shape_gen_X length_gen_X [OF assms]] by blast
  have "\<exists>y. sweep_y lib sg k2 ?X n = Inr y \<and> shape y = [n] \<and> length (elems y) = n \<and>
         (\<forall>j<n. elems y ! j =
            (\<Sum>i<np. cos (2 * pi / 2 * elems ?X ! (i * n + j)))
            + sg * elems (jax_random_normal lib k2 [n]) ! j)"
    using m len
    by (simp add: sweep_y_def jnp_add_def scalar_mul_def jax_random_normal_def)
  moreover have "\<forall>x \<in> set (elems ?X). - 2 \<le> x \<and> x \<le> 2"
    using range_gen_X [OF assms] by blast
  moreover have "?X = jax_random_uniform lib k1 [np, n] (- 2) 2"
    by (simp add: gen_X_def)
  moreover have "shape ?X = [np, n]"
    by (rule shape_gen_X)
  ultimately show ?thesis
    by blast
qed

theorem dataset_shape_and_response_witness:
  "sampler_contract lower_sampler \<and>
   shape (gen_X lower_sampler (Key 1) 2 1) = [2, 1] \<and>
   (\<exists>y. sweep_y lower_sampler (1 / 10) (Key 2) (gen_X lower_sampler (Key 1) 2 1) 1 = Inr y \<and>
        shape y = [1])"
  using dataset_shape_and_response [OF lower_sampler_contract, of "Key 1" 2 1 "1 / 10" "Key 2"]
    lower_sampler_contract
  by blast

text \<open>
  Claim C10.  For every key \<open>k\<close> and every covariate matrix \<open>X\<close> of shape \<open>(p, n)\<close>,
  \<^verbatim>\<open>gen_y(k, X)\<close> is \<open>f(X) + sigma * normal(k, (n,))\<close>, so the response the sweep computes
  inline in line 72 is the value of \<^verbatim>\<open>gen_y(subkey2, X)\<close>.
\<close>

theorem gen_y_is_inline_response:
  assumes "shape X = [np, n]"
  shows "gen_y lib sg k X =
           (case f X of
              Inl e \<Rightarrow> Inl e
            | Inr m \<Rightarrow> jnp_add m (scalar_mul sg (jax_random_normal lib k [n]))) \<and>
         sweep_y lib sg k X n = gen_y lib sg k X"
  using assms by (simp add: gen_y_def sweep_y_def split: sum.splits)

theorem gen_y_is_inline_response_witness:
  "shape (gen_X lower_sampler (Key 1) 2 3) = [2, 3] \<and>
   sweep_y lower_sampler (1 / 10) (Key 2) (gen_X lower_sampler (Key 1) 2 3) 3 =
     gen_y lower_sampler (1 / 10) (Key 2) (gen_X lower_sampler (Key 1) 2 3)"
  using gen_y_is_inline_response [OF shape_gen_X, of lower_sampler "1 / 10" "Key 2" lower_sampler "Key 1" 2 3]
    shape_gen_X [of lower_sampler "Key 1" 2 3]
  by blast

section \<open>The steps of the sweep\<close>

lemma jax_random_split_4:
  "jax_random_split k 4 = [Child k 4 0, Child k 4 1, Child k 4 2, Child k 4 3]"
  by (simp add: jax_random_split_def upt_rec)

lemma f_gen_X: "\<exists>m. f (gen_X lib k np n) = Inr m \<and> shape m = [n]"
  by (simp add: f_def jnp_sum_axis0_def jnp_cos_def scalar_mul_def gen_X_def jax_random_uniform_def)

lemma sweep_y_gen_X: "\<exists>y. sweep_y lib sg k2 (gen_X lib k1 np n) n = Inr y"
proof -
  obtain m where "f (gen_X lib k1 np n) = Inr m" "shape m = [n]"
    using f_gen_X by blast
  then show ?thesis
    by (simp add: sweep_y_def jnp_add_def scalar_mul_def jax_random_normal_def)
qed

lemma with_Timer_eq:
  "with_Timer body s =
     (fst (body s),
      \<lparr>start = Some (perf_counter s), time = Some (perf_counter (snd (body s)) - perf_counter s)\<rparr>,
      snd (body s))"
  by (cases "body s")
     (simp add: with_Timer_def Timer_enter_def Timer_exit_def Timer_new_def split: option.splits)

lemma timed_body_ok:
  "raises ev At_task n l = None \<Longrightarrow>
   timed_body ev n l d st ks s =
     (None, s\<lparr>clock := clock s + int (pending s + task_cost ev n l), pending := 0,
              calls := calls s @ [Task d st ks]\<rparr>)"
  by (simp add: timed_body_def task_call_def block_until_ready_def)

lemma timed_body_raises:
  "raises ev At_task n l = Some e \<Longrightarrow> timed_body ev n l d st ks s = (Some e, s)"
  by (simp add: timed_body_def task_call_def)

lemma device_iter_unbound:
  "state s = None \<Longrightarrow>
   device_iter ev cfg n k3 ld s =
     (Some (NameError ''state''), s\<lparr>calls := calls s @ [Split k3 (nchains cfg)]\<rparr>)"
  by (simp add: device_iter_def Let_def)

lemma device_iter_ok:
  assumes "state s = Some st" "raises ev At_device_put n l = None"
    "raises ev At_compile n l = None" "raises ev At_task n l = None"
  shows "device_iter ev cfg n k3 (l, d) s =
     (None, s\<lparr>state := None,
              times_dict := setdefault_append (times_dict s) l (int (pending s + task_cost ev n l)),
              clock := clock s + int (pending s + task_cost ev n l), pending := 0,
              calls := calls s @ [Split k3 (nchains cfg), Device_put d st,
                                  Task d (On_device d st) (jax_random_split k3 (nchains cfg))]\<rparr>)"
  using assms
  by (simp add: device_iter_def Let_def with_Timer_eq timed_body_ok perf_counter_def)

lemma device_iter_None_iff:
  "fst (device_iter ev cfg n k3 (l, d) s) = None \<longleftrightarrow>
     (state s \<noteq> None \<and> raises ev At_device_put n l = None \<and>
      raises ev At_compile n l = None \<and> raises ev At_task n l = None)"
  apply (cases "raises ev At_task n l")
  apply (simp_all add: device_iter_def Let_def with_Timer_eq timed_body_ok timed_body_raises perf_counter_def
      split: option.splits)
  done

lemma for_devices_single:
  "for_devices ev cfg n k3 [ld] s = device_iter ev cfg n k3 ld s"
  by (cases "device_iter ev cfg n k3 ld s") (simp split: option.splits)

lemma device_iter_unbinds:
  "device_iter ev cfg n k3 ld s = (None, s') \<Longrightarrow> state s' = None"
  by (cases "raises ev At_task n (fst ld)")
     (auto simp add: device_iter_def Let_def with_Timer_eq timed_body_ok timed_body_raises perf_counter_def
      split: option.splits)

lemma for_devices_two_fail:
  "fst (for_devices ev cfg n k3 (ld1 # ld2 # lds) s) \<noteq> None"
proof (cases "device_iter ev cfg n k3 ld1 s")
  case (Pair r s1)
  show ?thesis
  proof (cases r)
    case None
    then have "state s1 = None" using Pair device_iter_unbinds by blast
    then show ?thesis using Pair None by (simp add: device_iter_unbound)
  next
    case (Some e)
    then show ?thesis using Pair by simp
  qed
qed

lemma size_iter_eq:
  "\<exists>y. sweep_y lib (sigma cfg) (Child (key s) 4 2) (gen_X lib (Child (key s) 4 1) (p cfg) n) n = Inr y \<and>
     size_iter lib ev cfg devices n s =
       (case raises ev At_gbart n [] of
          Some e \<Rightarrow>
            (Some e, s\<lparr>key := Child (key s) 4 0,
                       calls := calls s @ [Split (key s) 4, Uniform (Child (key s) 4 1) [p cfg, n],
                                           Normal (Child (key s) 4 2) [n]]\<rparr>)
        | None \<Rightarrow>
            for_devices ev cfg n (Child (key s) 4 3) devices
              (s\<lparr>key := Child (key s) 4 0,
                 state := Some (Mcmc_state (gen_X lib (Child (key s) 4 1) (p cfg) n) y (ntree cfg)),
                 calls := calls s @ [Split (key s) 4, Uniform (Child (key s) 4 1) [p cfg, n],
                                     Normal (Child (key s) 4 2) [n],
                                     Gbart (gen_X lib (Child (key s) 4 1) (p cfg) n) y (ntree cfg)]\<rparr>))"
proof -
  obtain m where m: "f (gen_X lib (Child (key s) 4 1) (p cfg) n) = Inr m" "shape m = [n]"
    using f_gen_X by blast
  then show ?thesis
    by (simp add: size_iter_def sweep_y_def jax_random_split_4 Let_def jnp_add_def scalar_mul_def
        jax_random_normal_def split: option.splits)
qed

lemma for_devices_success_cases:
  assumes "for_devices ev cfg n k3 lds s = (None, s')"
  shows "(lds = [] \<and> s' = s) \<or> (\<exists>ld. lds = [ld] \<and> device_iter ev cfg n k3 ld s = (None, s'))"
proof (cases lds)
  case Nil
  then show ?thesis using assms by simp
next
  case (Cons ld rest)
  show ?thesis
  proof (cases rest)
    case Nil
    then have one: "lds = [ld]" using Cons by simp
    have "device_iter ev cfg n k3 ld s = (None, s')"
      using assms unfolding one for_devices_single .
    then show ?thesis using one by blast
  next
    case (Cons ld2 rest2)
    then show ?thesis
      using assms \<open>lds = ld # rest\<close> for_devices_two_fail [of ev cfg n k3 ld ld2 rest2 s] by simp
  qed
qed

lemma device_iter_success:
  assumes "device_iter ev cfg n k3 (l, d) s = (None, s')"
  shows "\<exists>st. state s = Some st \<and>
     s' = s\<lparr>state := None,
              times_dict := setdefault_append (times_dict s) l (int (pending s + task_cost ev n l)),
              clock := clock s + int (pending s + task_cost ev n l), pending := 0,
              calls := calls s @ [Split k3 (nchains cfg), Device_put d st,
                                  Task d (On_device d st) (jax_random_split k3 (nchains cfg))]\<rparr>"
proof -
  have "fst (device_iter ev cfg n k3 (l, d) s) = None" using assms by simp
  then obtain st where h: "state s = Some st" "raises ev At_device_put n l = None"
    "raises ev At_compile n l = None" "raises ev At_task n l = None"
    unfolding device_iter_None_iff by blast
  show ?thesis using assms device_iter_ok [OF h] h(1) by simp
qed

lemma size_iter_success:
  assumes "size_iter lib ev cfg devices n s = (None, s')"
  shows "\<exists>y. sweep_y lib (sigma cfg) (Child (key s) 4 2) (gen_X lib (Child (key s) 4 1) (p cfg) n) n = Inr y \<and>
     key s' = Child (key s) 4 0 \<and>
     length devices \<le> 1 \<and>
     calls s' = calls s @
        [Split (key s) 4, Uniform (Child (key s) 4 1) [p cfg, n], Normal (Child (key s) 4 2) [n],
         Gbart (gen_X lib (Child (key s) 4 1) (p cfg) n) y (ntree cfg)] @
        concat (map (device_calls cfg (Child (key s) 4 3)
                       (Mcmc_state (gen_X lib (Child (key s) 4 1) (p cfg) n) y (ntree cfg))) devices) \<and>
     times_dict s' =
        (case devices of
           [] \<Rightarrow> times_dict s
         | ld # _ \<Rightarrow> setdefault_append (times_dict s) (fst ld) (int (pending s + task_cost ev n (fst ld)))) \<and>
     pending s' = (if devices = [] then pending s else 0)"
proof -
  let ?X = "gen_X lib (Child (key s) 4 1) (p cfg) n"
  obtain y where y: "sweep_y lib (sigma cfg) (Child (key s) 4 2) ?X n = Inr y"
    and eq: "size_iter lib ev cfg devices n s =
       (case raises ev At_gbart n [] of
          Some e \<Rightarrow>
            (Some e, s\<lparr>key := Child (key s) 4 0,
                       calls := calls s @ [Split (key s) 4, Uniform (Child (key s) 4 1) [p cfg, n],
                                           Normal (Child (key s) 4 2) [n]]\<rparr>)
        | None \<Rightarrow>
            for_devices ev cfg n (Child (key s) 4 3) devices
              (s\<lparr>key := Child (key s) 4 0,
                 state := Some (Mcmc_state ?X y (ntree cfg)),
                 calls := calls s @ [Split (key s) 4, Uniform (Child (key s) 4 1) [p cfg, n],
                                     Normal (Child (key s) 4 2) [n],
                                     Gbart ?X y (ntree cfg)]\<rparr>))"
    using size_iter_eq [of lib cfg s n ev devices] by blast
  let ?mid = "s\<lparr>key := Child (key s) 4 0,
                 state := Some (Mcmc_state ?X y (ntree cfg)),
                 calls := calls s @ [Split (key s) 4, Uniform (Child (key s) 4 1) [p cfg, n],
                                     Normal (Child (key s) 4 2) [n],
                                     Gbart ?X y (ntree cfg)]\<rparr>"
  have fd: "for_devices ev cfg n (Child (key s) 4 3) devices ?mid = (None, s')"
    using assms eq by (cases "raises ev At_gbart n []") simp_all
  from for_devices_success_cases [OF fd]
  show ?thesis
  proof
    assume "devices = [] \<and> s' = ?mid"
    then show ?thesis using y by simp
  next
    assume "\<exists>ld. devices = [ld] \<and> device_iter ev cfg n (Child (key s) 4 3) ld ?mid = (None, s')"
    then obtain l d where ld: "devices = [(l, d)]"
      and di: "device_iter ev cfg n (Child (key s) 4 3) (l, d) ?mid = (None, s')"
      by (metis surj_pair)
    from device_iter_success [OF di] show ?thesis
      using y ld by (auto simp add: device_calls_def)
  qed
qed

lemma device_iter_calls:
  assumes "state s = Some st"
  shows "\<exists>t. calls (snd (device_iter ev cfg n k3 ld s)) = calls s @ t \<and>
             prefix t (device_calls cfg k3 st ld) \<and>
             (fst (device_iter ev cfg n k3 ld s) = None \<longrightarrow> t = device_calls cfg k3 st ld)"
  using assms
  by (cases "raises ev At_task n (fst ld)")
     (auto simp add: device_iter_def Let_def with_Timer_eq timed_body_ok timed_body_raises
        perf_counter_def device_calls_def split: option.splits)

lemma for_devices_calls:
  assumes "state s = Some st"
  shows "\<exists>t. calls (snd (for_devices ev cfg n k3 lds s)) = calls s @ t \<and>
             prefix t (devices_calls cfg k3 st lds) \<and>
             (fst (for_devices ev cfg n k3 lds s) = None \<longrightarrow> t = devices_calls cfg k3 st lds)"
proof (cases lds)
  case Nil
  then show ?thesis by simp
next
  case (Cons ld rest)
  obtain t where t: "calls (snd (device_iter ev cfg n k3 ld s)) = calls s @ t"
    "prefix t (device_calls cfg k3 st ld)"
    "fst (device_iter ev cfg n k3 ld s) = None \<longrightarrow> t = device_calls cfg k3 st ld"
    using device_iter_calls [OF assms] by blast
  show ?thesis
  proof (cases rest)
    case Nil
    then show ?thesis using t Cons by (simp del: for_devices.simps add: for_devices_single)
  next
    case rest: (Cons ld2 rest2)
    obtain r s1 where di: "device_iter ev cfg n k3 ld s = (r, s1)" by (cases "device_iter ev cfg n k3 ld s")
    show ?thesis
    proof (cases r)
      case (Some e)
      then show ?thesis using t di Cons rest by auto
    next
      case None
      then have "state s1 = None" using di device_iter_unbinds by blast
      then show ?thesis
        using t di Cons rest None by (simp add: device_iter_unbound)
    qed
  qed
qed

lemma device_iter_key: "key (snd (device_iter ev cfg n k3 ld s)) = key s"
  by (cases "raises ev At_task n (fst ld)")
     (auto simp add: device_iter_def Let_def with_Timer_eq timed_body_ok timed_body_raises
        perf_counter_def split: option.splits)

lemma for_devices_key: "key (snd (for_devices ev cfg n k3 lds s)) = key s"
proof (induction lds arbitrary: s)
  case Nil
  then show ?case by simp
next
  case (Cons ld lds)
  obtain r s1 where di: "device_iter ev cfg n k3 ld s = (r, s1)"
    by (cases "device_iter ev cfg n k3 ld s")
  then have "key s1 = key s" using device_iter_key [of ev cfg n k3 ld s] by simp
  then show ?case using di Cons [of s1] by (cases r) simp_all
qed

lemma size_iter_calls:
  "\<exists>t. calls (snd (size_iter lib ev cfg devices n s)) = calls s @ t \<and>
       prefix t (size_calls lib cfg devices (key s) n) \<and>
       key (snd (size_iter lib ev cfg devices n s)) = Child (key s) 4 0 \<and>
       (fst (size_iter lib ev cfg devices n s) = None \<longrightarrow>
          t = size_calls lib cfg devices (key s) n \<and> length devices \<le> 1)"
proof -
  let ?X = "gen_X lib (Child (key s) 4 1) (p cfg) n"
  obtain y where y: "sweep_y lib (sigma cfg) (Child (key s) 4 2) ?X n = Inr y"
    and eq: "size_iter lib ev cfg devices n s =
       (case raises ev At_gbart n [] of
          Some e \<Rightarrow>
            (Some e, s\<lparr>key := Child (key s) 4 0,
                       calls := calls s @ [Split (key s) 4, Uniform (Child (key s) 4 1) [p cfg, n],
                                           Normal (Child (key s) 4 2) [n]]\<rparr>)
        | None \<Rightarrow>
            for_devices ev cfg n (Child (key s) 4 3) devices
              (s\<lparr>key := Child (key s) 4 0,
                 state := Some (Mcmc_state ?X y (ntree cfg)),
                 calls := calls s @ [Split (key s) 4, Uniform (Child (key s) 4 1) [p cfg, n],
                                     Normal (Child (key s) 4 2) [n],
                                     Gbart ?X y (ntree cfg)]\<rparr>))"
    using size_iter_eq [of lib cfg s n ev devices] by blast
  let ?mid = "s\<lparr>key := Child (key s) 4 0,
                 state := Some (Mcmc_state ?X y (ntree cfg)),
                 calls := calls s @ [Split (key s) 4, Uniform (Child (key s) 4 1) [p cfg, n],
                                     Normal (Child (key s) 4 2) [n],
                                     Gbart ?X y (ntree cfg)]\<rparr>"
  show ?thesis
  proof (cases "raises ev At_gbart n []")
    case (Some e)
    then show ?thesis using eq y by (simp add: size_calls_def Let_def)
  next
    case None
    then have run: "size_iter lib ev cfg devices n s =
        for_devices ev cfg n (Child (key s) 4 3) devices ?mid"
      using eq by simp
    define st where "st = Mcmc_state ?X y (ntree cfg)"
    define mid where "mid = ?mid"
    define k3 where "k3 = Child (key s) 4 3"
    have run': "size_iter lib ev cfg devices n s = for_devices ev cfg n k3 devices mid"
      using run by (simp add: mid_def k3_def)
    have "state mid = Some st" by (simp add: mid_def st_def)
    from for_devices_calls [OF this, of ev cfg n k3 devices]
    obtain t where t: "calls (snd (for_devices ev cfg n k3 devices mid)) = calls mid @ t"
      "prefix t (devices_calls cfg k3 st devices)"
      "fst (for_devices ev cfg n k3 devices mid) = None \<longrightarrow> t = devices_calls cfg k3 st devices"
      by (elim exE conjE)
    have k: "key (snd (for_devices ev cfg n k3 devices mid)) = Child (key s) 4 0"
      by (simp add: for_devices_key mid_def)
    have len: "fst (for_devices ev cfg n k3 devices mid) = None \<longrightarrow> length devices \<le> 1"
    proof
      assume "fst (for_devices ev cfg n k3 devices mid) = None"
      then obtain s' where "for_devices ev cfg n k3 devices mid = (None, s')"
        by (metis prod.collapse)
      from for_devices_success_cases [OF this] show "length devices \<le> 1" by auto
    qed
    have cm: "calls mid = calls s @ [Split (key s) 4, Uniform (Child (key s) 4 1) [p cfg, n],
                                     Normal (Child (key s) 4 2) [n], Gbart ?X y (ntree cfg)]"
      by (simp add: mid_def)
    have sc: "size_calls lib cfg devices (key s) n =
                [Split (key s) 4, Uniform (Child (key s) 4 1) [p cfg, n],
                 Normal (Child (key s) 4 2) [n], Gbart ?X y (ntree cfg)] @
                devices_calls cfg k3 st devices"
      using y by (simp add: size_calls_def Let_def st_def k3_def)
    show ?thesis
      unfolding run' sc using t k len cm
      by (intro exI [of _ "[Split (key s) 4, Uniform (Child (key s) 4 1) [p cfg, n],
                                     Normal (Child (key s) 4 2) [n],
                                     Gbart ?X y (ntree cfg)] @ t"])
         simp
  qed
qed

lemma for_sizes_calls:
  "\<exists>t. calls (snd (for_sizes lib ev cfg devices ns s)) = calls s @ t \<and>
       prefix t (sizes_calls lib cfg devices (key s) ns) \<and>
       (fst (for_sizes lib ev cfg devices ns s) = None \<longrightarrow>
          t = sizes_calls lib cfg devices (key s) ns \<and>
          key (snd (for_sizes lib ev cfg devices ns s)) = ((\<lambda>k. Child k 4 0) ^^ length ns) (key s))"
proof (induction ns arbitrary: s)
  case Nil
  then show ?case by simp
next
  case (Cons n ns)
  obtain r s1 where si: "size_iter lib ev cfg devices n s = (r, s1)"
    by (cases "size_iter lib ev cfg devices n s")
  obtain t1 where t1: "calls s1 = calls s @ t1"
    "prefix t1 (size_calls lib cfg devices (key s) n)"
    "key s1 = Child (key s) 4 0"
    "r = None \<longrightarrow> t1 = size_calls lib cfg devices (key s) n \<and> length devices \<le> 1"
    using size_iter_calls [of lib ev cfg devices n s] si by auto
  show ?case
  proof (cases r)
    case (Some e)
    then show ?thesis using si t1 by (auto intro: prefix_prefix)
  next
    case None
    obtain t2 where t2: "calls (snd (for_sizes lib ev cfg devices ns s1)) = calls s1 @ t2"
      "prefix t2 (sizes_calls lib cfg devices (key s1) ns)"
      "fst (for_sizes lib ev cfg devices ns s1) = None \<longrightarrow>
          t2 = sizes_calls lib cfg devices (key s1) ns \<and>
          key (snd (for_sizes lib ev cfg devices ns s1)) = ((\<lambda>k. Child k 4 0) ^^ length ns) (key s1)"
      using Cons [of s1] by auto
    show ?thesis
      using si None t1 t2
      by (intro exI [of _ "t1 @ t2"]) (simp add: funpow_swap1 [of "\<lambda>k. Child k 4 0"])
  qed
qed

lemma for_sizes_Cons_success:
  assumes "for_sizes lib ev cfg devices (n # ns) s = (None, s')"
  shows "\<exists>s1. size_iter lib ev cfg devices n s = (None, s1) \<and>
              for_sizes lib ev cfg devices ns s1 = (None, s')"
  using assms by (cases "size_iter lib ev cfg devices n s") (simp split: option.splits)

lemma for_sizes_success_devices:
  assumes "for_sizes lib ev cfg devices ns s = (None, s')" "ns \<noteq> []"
  shows "length devices \<le> 1"
proof -
  obtain n rest where ns: "ns = n # rest" using assms(2) by (cases ns) auto
  obtain s1 where "size_iter lib ev cfg devices n s = (None, s1)"
    using for_sizes_Cons_success assms(1) unfolding ns by blast
  from size_iter_success [OF this] show ?thesis by auto
qed

section \<open>Runs that complete, and runs over two devices\<close>







lemma sweep_two_devices_never_completes:
  assumes "nvec cfg \<noteq> []" "2 \<le> length devices"
  shows "fst (sweep lib ev cfg devices) \<noteq> None"
proof
  assume "fst (sweep lib ev cfg devices) = None"
  then obtain s' where "for_sizes lib ev cfg devices (nvec cfg) (init_globals cfg ev) = (None, s')"
    unfolding sweep_def by (metis prod.collapse)
  from for_sizes_success_devices [OF this assms(1)] show False using assms(2) by simp
qed

lemmas eval_defs = sweep_def size_iter_def device_iter_def with_Timer_def timed_body_def task_call_def
  block_until_ready_def Timer_enter_def Timer_exit_def Timer_new_def perf_counter_def
  setdefault_append_def init_globals_def jax_random_key_def jax_random_split_4 Let_def
  f_def jnp_sum_axis0_def jnp_cos_def scalar_mul_def gen_X_def jax_random_uniform_def jnp_add_def
  jax_random_normal_def quiet_env_def small_config_def two_devices_def script_devices_def

text \<open>
  Claim C3, evaluated on two devices.  With the devices \<open>cpu\<close> and \<open>gpu\<close> configured, in an
  environment where no library call raises, the first size is timed on \<open>cpu\<close>; the pass
  for \<open>gpu\<close> then finds the name \<^verbatim>\<open>state\<close> deleted by line 104 of the pass before and
  raises \<^verbatim>\<open>NameError\<close>: the second device never receives the state built for the size,
  and the table holds the one time of the first device.
\<close>

theorem two_devices_raise_NameError:
  "fst (sweep lower_sampler quiet_env small_config two_devices) = Some (NameError ''state'') \<and>
   times_dict (snd (sweep lower_sampler quiet_env small_config two_devices)) = [(''cpu'', [1])] \<and>
   state (snd (sweep lower_sampler quiet_env small_config two_devices)) = None"
  by (simp add: eval_defs)

section \<open>The results table\<close>






section \<open>Reproducibility\<close>



section \<open>Every key is consumed once\<close>

lemma consumed_keys_append [simp]: "consumed_keys (a @ b) = consumed_keys a @ consumed_keys b"
  by (simp add: consumed_keys_def)

lemma consumed_keys_devices_calls:
  "length lds \<le> 1 \<Longrightarrow>
   consumed_keys (devices_calls cfg k3 st lds) = (if lds = [] then [] else [k3])"
  by (cases lds) (simp_all add: consumed_keys_def device_calls_def)

lemma consumed_keys_size_calls:
  assumes "length devices \<le> 1"
  shows "consumed_keys (size_calls lib cfg devices k n) =
           [k, Child k 4 1, Child k 4 2] @ (if devices = [] then [] else [Child k 4 3])"
proof -
  obtain y where "sweep_y lib (sigma cfg) (Child k 4 2) (gen_X lib (Child k 4 1) (p cfg) n) n = Inr y"
    using sweep_y_gen_X by blast
  then show ?thesis
    using consumed_keys_devices_calls [OF assms]
    by (simp add: size_calls_def Let_def) (simp add: consumed_keys_def)
qed

lemma consumed_keys_sizes_calls:
  assumes "length devices \<le> 1"
  shows "distinct (consumed_keys (sizes_calls lib cfg devices k ns)) \<and>
         (\<forall>x \<in> set (consumed_keys (sizes_calls lib cfg devices k ns)). x = k \<or> depth k < depth x)"
proof (induction ns arbitrary: k)
  case Nil
  then show ?case by (simp add: consumed_keys_def)
next
  case (Cons n ns)
  let ?rest = "consumed_keys (sizes_calls lib cfg devices (Child k 4 0) ns)"
  have d: "distinct ?rest"
    and b: "\<forall>x \<in> set ?rest. x = Child k 4 0 \<or> depth (Child k 4 0) < depth x"
    using Cons [of "Child k 4 0"] by blast+
  have notin: "k \<notin> set ?rest" "Child k 4 1 \<notin> set ?rest" "Child k 4 2 \<notin> set ?rest"
    "Child k 4 3 \<notin> set ?rest"
    using b by fastforce+
  have below: "\<forall>x \<in> set ?rest. depth k < depth x"
    using b by fastforce
  show ?case
    using assms d notin below by (simp add: consumed_keys_size_calls)
qed

lemma distinct_consumed_prefix:
  assumes "prefix t full" "distinct (consumed_keys full)"
  shows "distinct (consumed_keys t)"
proof -
  obtain r where "full = t @ r" using assms(1) by (auto simp add: prefix_def)
  then show ?thesis using assms(2) by simp
qed

text \<open>
  Claim C2, as the code has it.  In every execution of the sweep with at most one
  configured device (whatever the sizes, and whether the run completes or a library
  call raises), no key is passed to a split or to a draw more than once: the sweep key
  of a pass, the key of X, the key of the noise and the root of the chain keys are
  consumed once each.
\<close>

theorem keys_consumed_once_on_one_device:
  assumes "length devices \<le> 1"
  shows "distinct (consumed_keys (calls (snd (sweep lib ev cfg devices))))"
proof -
  obtain t where t: "calls (snd (sweep lib ev cfg devices)) = t"
    "prefix t (sizes_calls lib cfg devices (jax_random_key (seed cfg)) (nvec cfg))"
    using for_sizes_calls [of lib ev cfg devices "nvec cfg" "init_globals cfg ev"]
    by (simp add: sweep_def init_globals_def)
  show ?thesis
    unfolding t(1)
    using distinct_consumed_prefix [OF t(2)] consumed_keys_sizes_calls [OF assms] by blast
qed

theorem keys_consumed_once_on_one_device_witness:
  "length script_devices \<le> 1 \<and>
   distinct (consumed_keys (calls (snd (sweep lower_sampler quiet_env small_config script_devices))))"
  using keys_consumed_once_on_one_device [of script_devices lower_sampler quiet_env small_config]
  by (simp add: script_devices_def)

text \<open>Claim C2 as stated fails on two devices: the root of the chain keys is split in the
  pass of each device (line 85 is inside the loop over the devices), so it is consumed
  twice at the first size.\<close>

theorem chain_root_split_twice_on_two_devices:
  "consumed_keys (calls (snd (sweep lower_sampler quiet_env small_config two_devices))) =
     [Key 202403241634, Child (Key 202403241634) 4 1, Child (Key 202403241634) 4 2,
      Child (Key 202403241634) 4 3, Child (Key 202403241634) 4 3] \<and>
   \<not> distinct (consumed_keys (calls (snd (sweep lower_sampler quiet_env small_config two_devices))))"
  by (simp add: eval_defs consumed_keys_def)

section \<open>The response is generated once\<close>

lemma normal_draws_append [simp]: "normal_draws (a @ b) = normal_draws a @ normal_draws b"
  by (simp add: normal_draws_def)

lemma gbart_datasets_append [simp]: "gbart_datasets (a @ b) = gbart_datasets a @ gbart_datasets b"
  by (simp add: gbart_datasets_def)

lemma devices_calls_no_draw:
  "normal_draws (devices_calls cfg k3 st lds) = [] \<and> gbart_datasets (devices_calls cfg k3 st lds) = []"
  by (cases "(cfg, k3, st, lds)" rule: devices_calls.cases)
     (simp_all add: normal_draws_def gbart_datasets_def device_calls_def)

lemma prefix_devices_calls_no_draw:
  assumes "prefix t (devices_calls cfg k3 st lds)"
  shows "normal_draws t = [] \<and> gbart_datasets t = []"
proof -
  obtain r where r: "devices_calls cfg k3 st lds = t @ r"
    using assms by (auto simp add: prefix_def)
  have "normal_draws (t @ r) = [] \<and> gbart_datasets (t @ r) = []"
    using devices_calls_no_draw [of cfg k3 st lds] unfolding r .
  then show ?thesis by simp
qed

text \<open>
  Claim C8, as the code has it.  In every pass of the loop over the sizes, whatever its
  outcome, the script makes exactly one normal draw: the noise of shape \<open>(n)\<close> from
  \<^verbatim>\<open>subkey2\<close>, the third of the four keys of the pass.  The response is computed once,
  inline in line 72, and it is this response that the state builder receives (when the
  builder is reached without raising, the one dataset passed to it is the covariates
  and that response).  \<^verbatim>\<open>gen_y\<close> is not called by the sweep; no response is discarded.
\<close>

theorem response_generated_once:
  "\<exists>y. sweep_y lib (sigma cfg) (Child (key s) 4 2) (gen_X lib (Child (key s) 4 1) (p cfg) n) n = Inr y \<and>
       normal_draws (calls (snd (size_iter lib ev cfg devices n s))) =
         normal_draws (calls s) @ [(Child (key s) 4 2, [n])] \<and>
       gbart_datasets (calls (snd (size_iter lib ev cfg devices n s))) =
         gbart_datasets (calls s) @
         (case raises ev At_gbart n [] of
            None \<Rightarrow> [(gen_X lib (Child (key s) 4 1) (p cfg) n, y)]
          | Some e \<Rightarrow> [])"
proof -
  let ?X = "gen_X lib (Child (key s) 4 1) (p cfg) n"
  obtain y where y: "sweep_y lib (sigma cfg) (Child (key s) 4 2) ?X n = Inr y"
    and eq: "size_iter lib ev cfg devices n s =
       (case raises ev At_gbart n [] of
          Some e \<Rightarrow>
            (Some e, s\<lparr>key := Child (key s) 4 0,
                       calls := calls s @ [Split (key s) 4, Uniform (Child (key s) 4 1) [p cfg, n],
                                           Normal (Child (key s) 4 2) [n]]\<rparr>)
        | None \<Rightarrow>
            for_devices ev cfg n (Child (key s) 4 3) devices
              (s\<lparr>key := Child (key s) 4 0,
                 state := Some (Mcmc_state ?X y (ntree cfg)),
                 calls := calls s @ [Split (key s) 4, Uniform (Child (key s) 4 1) [p cfg, n],
                                     Normal (Child (key s) 4 2) [n],
                                     Gbart ?X y (ntree cfg)]\<rparr>))"
    using size_iter_eq [of lib cfg s n ev devices] by blast
  have "normal_draws (calls (snd (size_iter lib ev cfg devices n s))) =
         normal_draws (calls s) @ [(Child (key s) 4 2, [n])] \<and>
       gbart_datasets (calls (snd (size_iter lib ev cfg devices n s))) =
         gbart_datasets (calls s) @
         (case raises ev At_gbart n [] of None \<Rightarrow> [(?X, y)] | Some e \<Rightarrow> [])"
  proof (cases "raises ev At_gbart n []")
    case (Some e)
    then show ?thesis using eq by (simp add: normal_draws_def gbart_datasets_def)
  next
    case None
    define st where "st = Mcmc_state ?X y (ntree cfg)"
    define k3 where "k3 = Child (key s) 4 3"
    define mid where "mid = s\<lparr>key := Child (key s) 4 0,
                 state := Some (Mcmc_state ?X y (ntree cfg)),
                 calls := calls s @ [Split (key s) 4, Uniform (Child (key s) 4 1) [p cfg, n],
                                     Normal (Child (key s) 4 2) [n],
                                     Gbart ?X y (ntree cfg)]\<rparr>"
    have run: "size_iter lib ev cfg devices n s = for_devices ev cfg n k3 devices mid"
      using eq None by (simp add: mid_def k3_def)
    have "state mid = Some st" by (simp add: mid_def st_def)
    from for_devices_calls [OF this, of ev cfg n k3 devices]
    obtain t where t: "calls (snd (for_devices ev cfg n k3 devices mid)) = calls mid @ t"
      "prefix t (devices_calls cfg k3 st devices)"
      by (elim exE conjE)
    have cm: "calls mid = calls s @ [Split (key s) 4, Uniform (Child (key s) 4 1) [p cfg, n],
                                     Normal (Child (key s) 4 2) [n], Gbart ?X y (ntree cfg)]"
      by (simp add: mid_def)
    show ?thesis
      unfolding run t(1) cm using prefix_devices_calls_no_draw [OF t(2)] None
      by (simp add: normal_draws_def gbart_datasets_def)
  qed
  then show ?thesis using y by blast
qed

theorem response_generated_once_witness:
  "normal_draws (calls (snd (size_iter lower_sampler quiet_env small_config script_devices 3
                              (init_globals (small_config\<lparr>seed := 7\<rparr>) quiet_env)))) =
     [(Child (Key 7) 4 2, [3])]"
  using response_generated_once
          [of lower_sampler small_config "init_globals (small_config\<lparr>seed := 7\<rparr>) quiet_env" 3
              quiet_env script_devices]
  by (auto simp add: init_globals_def jax_random_key_def normal_draws_def)

text \<open>Claim C8 as stated fails on a pass from the initial globals of the script's seed:
  the pass makes a single normal draw and passes a single dataset to the state builder,
  not two draws from two keys.\<close>

theorem one_noise_draw_per_pass:
  "normal_draws (calls (snd (size_iter lower_sampler quiet_env small_config script_devices 1
                              (init_globals small_config quiet_env)))) =
     [(Child (Key 202403241634) 4 2, [1])] \<and>
   length (gbart_datasets (calls (snd (size_iter lower_sampler quiet_env small_config script_devices 1
                              (init_globals small_config quiet_env))))) = 1"
  by (simp add: eval_defs normal_draws_def gbart_datasets_def)

section \<open>What the timer guarantees\<close>

text \<open>
  Claim C4, as the code has it.  The timer itself does not synchronize: at its exit the
  dispatched work that is still pending is what the body left pending.  The barrier is
  the caller's: the body the sweep times is \<^verbatim>\<open>jax.block_until_ready(task(state, keys))\<close>,
  and when that body returns, no dispatched work is pending in the state in which the
  end timestamp is read, and the elapsed time is the work that was pending at entry plus
  the cost of the task.
\<close>

theorem barrier_is_in_the_timed_body:
  "pending (snd (snd (with_Timer body s))) = pending (snd (body s)) \<and>
   (raises ev At_task n l = None \<longrightarrow>
      fst (with_Timer (timed_body ev n l d st ks) s) = None \<and>
      pending (snd (snd (with_Timer (timed_body ev n l d st ks) s))) = 0 \<and>
      time (fst (snd (with_Timer (timed_body ev n l d st ks) s))) =
        Some (int (pending s) + int (task_cost ev n l)))"
  by (simp add: with_Timer_eq timed_body_ok perf_counter_def)

theorem barrier_is_in_the_timed_body_witness:
  "raises quiet_env At_task 5 ''cpu'' = None \<and>
   pending (snd (snd (with_Timer (timed_body quiet_env 5 ''cpu'' (Device ''cpu'' 0) empty_state [])
                        (init_globals small_config quiet_env)))) = 0 \<and>
   time (fst (snd (with_Timer (timed_body quiet_env 5 ''cpu'' (Device ''cpu'' 0) empty_state [])
                        (init_globals small_config quiet_env)))) = Some 5"
  using barrier_is_in_the_timed_body
          [of "timed_body quiet_env 5 ''cpu'' (Device ''cpu'' 0) empty_state []"
              "init_globals small_config quiet_env" quiet_env 5 "''cpu''" "Device ''cpu'' 0"
              empty_state "[]"]
  by (simp add: quiet_env_def init_globals_def)

text \<open>Claim C4 as stated fails for a body that dispatches the task and does not wait:
  the timer exits with the five ticks of work still pending and records an elapsed
  time of 0.\<close>

theorem timer_alone_does_not_synchronize:
  "pending (snd (snd (with_Timer (task_call quiet_env 5 ''cpu'' (Device ''cpu'' 0) empty_state [])
                        (init_globals small_config quiet_env)))) = 5 \<and>
   time (fst (snd (with_Timer (task_call quiet_env 5 ''cpu'' (Device ''cpu'' 0) empty_state [])
                        (init_globals small_config quiet_env)))) = Some 0"
  by (simp add: with_Timer_eq task_call_def perf_counter_def quiet_env_def init_globals_def)

lemma device_iter_error_keeps_times:
  "fst (device_iter ev cfg n k3 ld s) \<noteq> None \<Longrightarrow>
   times_dict (snd (device_iter ev cfg n k3 ld s)) = times_dict s"
  by (cases "raises ev At_task n (fst ld)")
     (auto simp add: device_iter_def Let_def with_Timer_eq timed_body_ok timed_body_raises
        perf_counter_def split: option.splits)

text \<open>
  Claim C5.  For every body, the \<^verbatim>\<open>with\<close> block ends with the outcome of the body (an
  exception of the body is raised again, the same exception) and in the state the body
  left, and the timer holds the elapsed time, the clock at the exit minus the clock at
  the entry, whether the body returned or raised.  When the timed call of a pass of the
  device loop raises, the pass ends with that exception and the results table is as it
  was: no time is appended.
\<close>

theorem timer_records_and_propagates:
  "with_Timer body s =
     (fst (body s),
      \<lparr>start = Some (perf_counter s), time = Some (perf_counter (snd (body s)) - perf_counter s)\<rparr>,
      snd (body s)) \<and>
   (state s = Some st \<and> raises ev At_device_put n l = None \<and> raises ev At_compile n l = None \<and>
    raises ev At_task n l = Some e \<longrightarrow>
      fst (device_iter ev cfg n k3 (l, d) s) = Some e \<and>
      times_dict (snd (device_iter ev cfg n k3 (l, d) s)) = times_dict s)"
  by (simp add: with_Timer_eq device_iter_def Let_def timed_body_raises)

theorem timer_records_and_propagates_witness:
  "fst (sweep lower_sampler failing_env small_config script_devices) = Some (Raised ''out of memory'') \<and>
   times_dict (snd (sweep lower_sampler failing_env small_config script_devices)) = [(''cpu'', [1])] \<and>
   fst (device_iter failing_env small_config 2 (Key 3) (''cpu'', Device ''cpu'' 0)
          ((init_globals small_config failing_env)\<lparr>state := Some empty_state\<rparr>)) =
     Some (Raised ''out of memory'') \<and>
   times_dict (snd (device_iter failing_env small_config 2 (Key 3) (''cpu'', Device ''cpu'' 0)
          ((init_globals small_config failing_env)\<lparr>state := Some empty_state\<rparr>))) = []"
proof -
  have run: "fst (sweep lower_sampler failing_env small_config script_devices) = Some (Raised ''out of memory'') \<and>
   times_dict (snd (sweep lower_sampler failing_env small_config script_devices)) = [(''cpu'', [1])]"
    by (simp add: eval_defs failing_env_def)
  have h: "state ((init_globals small_config failing_env)\<lparr>state := Some empty_state\<rparr>) = Some empty_state \<and>
     raises failing_env At_device_put 2 ''cpu'' = None \<and> raises failing_env At_compile 2 ''cpu'' = None \<and>
     raises failing_env At_task 2 ''cpu'' = Some (Raised ''out of memory'')"
    by (simp add: failing_env_def)
  show ?thesis
    using timer_records_and_propagates
      [of "\<lambda>s. (None, s)" "(init_globals small_config failing_env)\<lparr>state := Some empty_state\<rparr>"
          empty_state failing_env 2 "''cpu''" "Raised ''out of memory''" small_config "Key 3"
          "Device ''cpu'' 0"]
      h run
    by (simp add: init_globals_def)
qed

section \<open>The keyword arguments of the text box\<close>

lemma dict_update_Cons: "dict_update d ((k, v) # e) = dict_update (AList.update k v d) e"
  by (simp add: dict_update_def)

lemma map_of_dict_update:
  "distinct (map fst e) \<Longrightarrow>
   map_of (dict_update d e) q = (case map_of e q of Some x \<Rightarrow> Some x | None \<Rightarrow> map_of d q)"
proof (induction e arbitrary: d)
  case Nil
  then show ?case by (simp add: dict_update_def)
next
  case (Cons kv e)
  obtain k v where kv: "kv = (k, v)" by (cases kv)
  have none: "map_of e k = None"
    using Cons.prems kv by (simp add: map_of_eq_None_iff)
  have "map_of (dict_update (AList.update k v d) e) q =
          (case map_of e q of Some x \<Rightarrow> Some x | None \<Rightarrow> map_of (AList.update k v d) q)"
    using Cons.IH [of "AList.update k v d"] Cons.prems by simp
  then show ?case
    unfolding kv dict_update_Cons using none by (simp add: update_conv' split: option.splits)
qed

lemma both_dictsD:
  "both_dicts v dflt \<Longrightarrow> \<exists>dv dd. v = Dict dv \<and> dflt = Some (Dict dd)"
  by (erule both_dicts.elims) simp_all

lemma merge_loop_skip:
  "\<not> both_dicts v (map_of kwargs k) \<Longrightarrow>
   merge_loop ((k, v) # items) kwargs newkw = merge_loop items kwargs newkw"
  by (cases "(v, map_of kwargs k)" rule: both_dicts.cases) (simp_all split: pyval.splits)

lemma merge_loop_merge:
  "v = Dict dv \<Longrightarrow> map_of kwargs k = Some (Dict dd) \<Longrightarrow> map_of newkw k = Some w \<Longrightarrow>
   merge_loop ((k, v) # items) kwargs newkw =
     merge_loop items (AList.update k (Dict (dict_update dd dv)) kwargs) (AList.delete k newkw)"
  by simp

lemma merge_loop_result:
  assumes "distinct (map fst items)" "distinct (map fst newkw)"
    "\<forall>k \<in> fst ` set items. map_of newkw k \<noteq> None"
  shows "\<exists>kwargs' newkw'.
     merge_loop items kwargs newkw = Inr (kwargs', newkw') \<and>
     distinct (map fst newkw') \<and>
     (\<forall>q. map_of kwargs' q =
        (case map_of items q of
           None \<Rightarrow> map_of kwargs q
         | Some v \<Rightarrow> if both_dicts v (map_of kwargs q) then Some (merged_entry v (map_of kwargs q))
                     else map_of kwargs q)) \<and>
     (\<forall>q. map_of newkw' q =
        (case map_of items q of
           None \<Rightarrow> map_of newkw q
         | Some v \<Rightarrow> if both_dicts v (map_of kwargs q) then None else map_of newkw q))"
  using assms
proof (induction items arbitrary: kwargs newkw)
  case Nil
  then show ?case by simp
next
  case (Cons kv items)
  obtain k v where kv: "kv = (k, v)" by (cases kv)
  have d: "distinct (map fst items)" and none: "map_of items k = None"
    using Cons.prems(1) kv by (simp_all add: map_of_eq_None_iff)
  have later: "\<forall>k' \<in> fst ` set items. k' \<noteq> k"
    using Cons.prems(1) kv by auto
  show ?case
  proof (cases "both_dicts v (map_of kwargs k)")
    case False
    have pres: "\<forall>k \<in> fst ` set items. map_of newkw k \<noteq> None"
      using Cons.prems(3) by simp
    obtain kwargs' newkw' where r: "merge_loop items kwargs newkw = Inr (kwargs', newkw')"
      "distinct (map fst newkw')"
      "\<forall>q. map_of kwargs' q =
        (case map_of items q of
           None \<Rightarrow> map_of kwargs q
         | Some v \<Rightarrow> if both_dicts v (map_of kwargs q) then Some (merged_entry v (map_of kwargs q))
                     else map_of kwargs q)"
      "\<forall>q. map_of newkw' q =
        (case map_of items q of
           None \<Rightarrow> map_of newkw q
         | Some v \<Rightarrow> if both_dicts v (map_of kwargs q) then None else map_of newkw q)"
      using Cons.IH [OF d Cons.prems(2) pres, of kwargs] by blast
    show ?thesis
      unfolding kv merge_loop_skip [OF False]
      using r False none
      apply (rule_tac x = kwargs' in exI)
      apply (rule_tac x = newkw' in exI)
      apply simp
      done
  next
    case True
    obtain dv dd where v: "v = Dict dv" and dflt: "map_of kwargs k = Some (Dict dd)"
      using both_dictsD [OF True] by blast
    obtain w where w: "map_of newkw k = Some w"
      using Cons.prems(3) kv by auto
    let ?kwargs1 = "AList.update k (Dict (dict_update dd dv)) kwargs"
    let ?newkw1 = "AList.delete k newkw"
    have d1: "distinct (map fst ?newkw1)"
      using Cons.prems(2) by (rule distinct_delete)
    have pres: "\<forall>k' \<in> fst ` set items. map_of ?newkw1 k' \<noteq> None"
      using Cons.prems(3) later by (simp add: delete_conv')
    obtain kwargs' newkw' where r: "merge_loop items ?kwargs1 ?newkw1 = Inr (kwargs', newkw')"
      "distinct (map fst newkw')"
      "\<forall>q. map_of kwargs' q =
        (case map_of items q of
           None \<Rightarrow> map_of ?kwargs1 q
         | Some v \<Rightarrow> if both_dicts v (map_of ?kwargs1 q) then Some (merged_entry v (map_of ?kwargs1 q))
                     else map_of ?kwargs1 q)"
      "\<forall>q. map_of newkw' q =
        (case map_of items q of
           None \<Rightarrow> map_of ?newkw1 q
         | Some v \<Rightarrow> if both_dicts v (map_of ?kwargs1 q) then None else map_of ?newkw1 q)"
      using Cons.IH [OF d d1 pres, of ?kwargs1] by blast
    have m: "merged_entry v (map_of kwargs k) = Dict (dict_update dd dv)"
      by (simp add: v dflt)
    show ?thesis
      unfolding kv merge_loop_merge [OF v dflt w]
      using r True none m
      apply (rule_tac x = kwargs' in exI)
      apply (rule_tac x = newkw' in exI)
      apply (simp add: update_conv' delete_conv' split: option.splits)
      done
  qed
qed

lemma locparams_keys:
  assumes "map_of locparams loc = Some lp"
  shows "map fst lp = [''xy'', ''xytext'', ''va'', ''ha'']"
  using assms by (simp add: locparams_def Let_def split: if_splits) auto

lemma merged_entry_other:
  "(\<forall>dv. v \<noteq> Dict dv) \<or> (\<forall>dd. dflt \<noteq> Some (Dict dd)) \<Longrightarrow> merged_entry v dflt = v"
  by (cases "(v, dflt)" rule: merged_entry.cases) auto

lemma merged_entry_cases:
  "both_dicts v dflt \<or> merged_entry v dflt = v"
  by (cases "(v, dflt)" rule: both_dicts.cases) simp_all

text \<open>
  Claim C9.  For every call of \<^verbatim>\<open>textbox\<close> with a location of the table and keyword
  arguments \<open>kw\<close> (a dictionary: distinct keys), \<^verbatim>\<open>ax.annotate\<close> is called with the text
  and with keyword arguments in which
  \<^item> a key for which the caller passes a dictionary \<open>dv\<close> and the defaults hold a
    dictionary \<open>dd\<close> holds \<open>dd\<close> updated with \<open>dv\<close>;
  \<^item> every other key of the caller holds the caller's value, whatever the default;
  \<^item> a key the caller does not pass keeps its default;
  \<^item> the default of \<^verbatim>\<open>bbox\<close> is the dictionary of lines 149-154 for every location;
  \<^item> and a dictionary \<open>dd\<close> updated with \<open>dv\<close> holds, property by property, the value of
    \<open>dv\<close> where \<open>dv\<close> sets the property and the value of \<open>dd\<close> where it does not.
\<close>

theorem textbox_merges_nested_defaults:
  assumes "distinct (map fst kw)" "map_of locparams loc = Some lp"
  shows "\<exists>kwargs. textbox txt loc kw = Inr (txt, kwargs) \<and>
     (\<forall>k dv dd. map_of kw k = Some (Dict dv) \<and>
                map_of (dict_update default_kwargs lp) k = Some (Dict dd) \<longrightarrow>
          map_of kwargs k = Some (Dict (dict_update dd dv))) \<and>
     (\<forall>k v. map_of kw k = Some v \<and>
            ((\<forall>dv. v \<noteq> Dict dv) \<or> (\<forall>dd. map_of (dict_update default_kwargs lp) k \<noteq> Some (Dict dd))) \<longrightarrow>
          map_of kwargs k = Some v) \<and>
     (\<forall>k. map_of kw k = None \<longrightarrow> map_of kwargs k = map_of (dict_update default_kwargs lp) k) \<and>
     map_of (dict_update default_kwargs lp) ''bbox'' = map_of default_kwargs ''bbox'' \<and>
     (\<forall>dd dv q. distinct (map fst dv) \<longrightarrow>
          map_of (dict_update dd dv) q =
            (case map_of dv q of Some x \<Rightarrow> Some x | None \<Rightarrow> map_of dd q))"
proof -
  define dflt where "dflt = dict_update default_kwargs lp"
  have pres: "\<forall>k \<in> fst ` set kw. map_of kw k \<noteq> None"
    by (simp add: map_of_eq_None_iff)
  obtain kwargs' newkw' where r: "merge_loop kw dflt kw = Inr (kwargs', newkw')"
    "distinct (map fst newkw')"
    "\<forall>q. map_of kwargs' q =
        (case map_of kw q of
           None \<Rightarrow> map_of dflt q
         | Some v \<Rightarrow> if both_dicts v (map_of dflt q) then Some (merged_entry v (map_of dflt q))
                     else map_of dflt q)"
    "\<forall>q. map_of newkw' q =
        (case map_of kw q of
           None \<Rightarrow> map_of kw q
         | Some v \<Rightarrow> if both_dicts v (map_of dflt q) then None else map_of kw q)"
    using merge_loop_result [OF assms(1) assms(1) pres, of dflt] by blast
  have run: "textbox txt loc kw = Inr (txt, dict_update kwargs' newkw')"
    using assms(2) r(1) by (simp add: textbox_def dflt_def)
  have final: "map_of (dict_update kwargs' newkw') q =
        (case map_of kw q of
           None \<Rightarrow> map_of dflt q
         | Some v \<Rightarrow> Some (merged_entry v (map_of dflt q)))" for q
    using merged_entry_cases [of "the (map_of kw q)" "map_of dflt q"]
    by (auto simp add: map_of_dict_update [OF r(2)] r(3) r(4) split: option.splits)
  have keys: "map fst lp = [''xy'', ''xytext'', ''va'', ''ha'']"
    by (rule locparams_keys [OF assms(2)])
  have "''bbox'' \<notin> set (map fst lp)"
    unfolding keys by simp
  then have "''bbox'' \<notin> fst ` set lp"
    by simp
  then have nb: "map_of lp ''bbox'' = None"
    by (simp add: map_of_eq_None_iff)
  have "distinct (map fst lp)"
    unfolding keys by simp
  then have bbox: "map_of dflt ''bbox'' = map_of default_kwargs ''bbox''"
    using nb by (simp add: dflt_def map_of_dict_update)
  have "(\<forall>k dv dd. map_of kw k = Some (Dict dv) \<and> map_of dflt k = Some (Dict dd) \<longrightarrow>
          map_of (dict_update kwargs' newkw') k = Some (Dict (dict_update dd dv)))"
    by (simp add: final)
  moreover have "(\<forall>k v. map_of kw k = Some v \<and>
            ((\<forall>dv. v \<noteq> Dict dv) \<or> (\<forall>dd. map_of dflt k \<noteq> Some (Dict dd))) \<longrightarrow>
          map_of (dict_update kwargs' newkw') k = Some v)"
    using merged_entry_other by (simp add: final)
  moreover have "(\<forall>k. map_of kw k = None \<longrightarrow> map_of (dict_update kwargs' newkw') k = map_of dflt k)"
    by (simp add: final)
  moreover have "(\<forall>dd dv q. distinct (map fst dv) \<longrightarrow>
          map_of (dict_update dd dv) q =
            (case map_of dv q of Some x \<Rightarrow> Some x | None \<Rightarrow> map_of dd q))"
    by (simp add: map_of_dict_update)
  ultimately show ?thesis
    using run bbox unfolding dflt_def by blast
qed

theorem textbox_merges_nested_defaults_witness:
  "\<exists>kwargs. textbox ''p = 10'' ''lower right''
               [(''bbox'', Dict [(''alpha'', Num 1)]), (''color'', Str ''red'')] =
               Inr (''p = 10'', kwargs) \<and>
     map_of kwargs ''bbox'' =
       Some (Dict [(''facecolor'', Str ''white''), (''alpha'', Num 1),
                   (''edgecolor'', Str ''#ccc''), (''boxstyle'', Str ''round'')]) \<and>
     map_of kwargs ''color'' = Some (Str ''red'') \<and>
     map_of kwargs ''xycoords'' = Some (Str ''axes fraction'')"
proof -
  let ?kw = "[(''bbox'', Dict [(''alpha'', Num 1)]), (''color'', Str ''red'')]"
  let ?lp = "[(''xy'', Tup [Num 1, Num 0]), (''xytext'', Tup [Num (- 8), Num 8]),
              (''va'', Str ''bottom''), (''ha'', Str ''right'')]"
  let ?dflt = "dict_update default_kwargs ?lp"
  have d: "distinct (map fst ?kw)" by simp
  have l: "map_of locparams ''lower right'' = Some ?lp"
    by (simp add: locparams_def Let_def)
  have bb: "map_of ?dflt ''bbox'' =
      Some (Dict [(''facecolor'', Str ''white''), (''alpha'', Num (3 / 4)),
                  (''edgecolor'', Str ''#ccc''), (''boxstyle'', Str ''round'')])"
    and co: "\<forall>dd. map_of ?dflt ''color'' \<noteq> Some (Dict dd)"
    and xy: "map_of ?dflt ''xycoords'' = Some (Str ''axes fraction'')"
    by (simp_all add: dict_update_def default_kwargs_def)
  obtain kwargs where k: "textbox ''p = 10'' ''lower right'' ?kw = Inr (''p = 10'', kwargs)"
    and merge: "\<forall>k dv dd. map_of ?kw k = Some (Dict dv) \<and> map_of ?dflt k = Some (Dict dd) \<longrightarrow>
          map_of kwargs k = Some (Dict (dict_update dd dv))"
    and repl: "\<forall>k v. map_of ?kw k = Some v \<and>
            ((\<forall>dv. v \<noteq> Dict dv) \<or> (\<forall>dd. map_of ?dflt k \<noteq> Some (Dict dd))) \<longrightarrow>
          map_of kwargs k = Some v"
    and keep: "\<forall>k. map_of ?kw k = None \<longrightarrow> map_of kwargs k = map_of ?dflt k"
    using textbox_merges_nested_defaults [OF d l, of "''p = 10''"] by blast
  have "map_of kwargs ''bbox'' =
          Some (Dict (dict_update [(''facecolor'', Str ''white''), (''alpha'', Num (3 / 4)),
                  (''edgecolor'', Str ''#ccc''), (''boxstyle'', Str ''round'')] [(''alpha'', Num 1)]))"
    using merge bb by simp
  then have 1: "map_of kwargs ''bbox'' =
       Some (Dict [(''facecolor'', Str ''white''), (''alpha'', Num 1),
                   (''edgecolor'', Str ''#ccc''), (''boxstyle'', Str ''round'')])"
    by (simp add: dict_update_def)
  have 2: "map_of kwargs ''color'' = Some (Str ''red'')"
    using repl co by simp
  have 3: "map_of kwargs ''xycoords'' = Some (Str ''axes fraction'')"
    using keep xy by simp
  show ?thesis using k 1 2 3 by blast
qed

end
